theory Spec2Isabelle
  imports Main "HOL-Library.Sublist"
begin

section \<open>The lazy ranged object reader of s3fs (obj.go, s3.go)\<close>

text \<open>
  A shallow embedding of \<^verbatim>\<open>obj.go\<close>: the \<^verbatim>\<open>object\<close> handle with its
  \<^verbatim>\<open>Seek\<close>, \<^verbatim>\<open>Close\<close>, \<^verbatim>\<open>Read\<close> and \<^verbatim>\<open>Stat\<close> methods, the fetch
  primitives \<^verbatim>\<open>dl\<close>, \<^verbatim>\<open>fillChunk\<close>, \<^verbatim>\<open>parseFullResponse\<close>,
  \<^verbatim>\<open>parsePartialResponse\<close>, the header parser \<^verbatim>\<open>parseContentRange\<close> and the two
  backend adapters. Mutation of \<^verbatim>\<open>*object\<close> is explicit state passing; the store
  client is a parameter that threads the state of the outside world; every error
  return and every panic of the source is a value of \<open>error\<close>.
\<close>

subsection \<open>Machine integers\<close>

text \<open>
  The integer fields are \<^verbatim>\<open>int64\<close> (and \<^verbatim>\<open>int\<close>, taken as 64 bits wide, so that
  the conversions \<^verbatim>\<open>int(obj.size)\<close>, \<^verbatim>\<open>int64(obj.rOffset)\<close> are identities). They are
  modelled as \<open>int\<close>, and every addition or subtraction whose operands come from the
  caller or from the store is wrapped to two's complement explicitly.
\<close>

definition wrap64 :: "int \<Rightarrow> int" where
  "wrap64 x = (x + 2 ^ 63) mod 2 ^ 64 - 2 ^ 63"

definition is_int64 :: "int \<Rightarrow> bool" where
  "is_int64 x = (- (2 ^ 63) \<le> x \<and> x < 2 ^ 63)"

subsection \<open>Data model\<close>

text \<open>
  A byte is a \<open>char\<close>, the buffer a \<open>string\<close>. A \<^verbatim>\<open>time.Time\<close> is the instant it
  denotes, counted from the zero time, so \<^verbatim>\<open>IsZero\<close> is equality with 0 and
  \<^verbatim>\<open>Equal\<close> is equality. A header string is the list of runes that \<^verbatim>\<open>fmt\<close> decodes
  from it.
\<close>

type_synonym time = nat
type_synonym rune = nat

definition IsZero :: "time \<Rightarrow> bool" where
  "IsZero t = (t = 0)"

definition runes :: "string \<Rightarrow> rune list" where
  "runes s = map of_char s"

datatype store_error = NoSuchKey | RangeNotSatisfiable | TransportError | NilDereference

datatype io_error = ConnectionReset | DeadlineExceeded

text \<open>
  An \<^verbatim>\<open>io.ReadCloser\<close> body: the bytes it yields and how it ends, with \<^verbatim>\<open>io.EOF\<close>
  (\<open>None\<close>) or with a read error.
\<close>

record body_stream =
  payload :: string
  fault :: "io_error option"

record getObjectResponse =
  body :: body_stream
  contentLength :: int
  contentRange :: "rune list option"
  lastModified :: time

text \<open>
  The \<^verbatim>\<open>client\<close> interface: \<^verbatim>\<open>getObject(ctx, key, offset, count)\<close>, as a function of
  the state of the world \<open>'w\<close> (the remote store, a request log, ...).
\<close>

type_synonym 'w client = "'w \<Rightarrow> string \<Rightarrow> int \<Rightarrow> int \<Rightarrow> (store_error + getObjectResponse) \<times> 'w"

text \<open>
  The \<^verbatim>\<open>object\<close> struct without \<^verbatim>\<open>ctx\<close> and \<^verbatim>\<open>client\<close>, which are parameters of
  the operations. The field \<^verbatim>\<open>size\<close> is \<open>size'\<close> here.
\<close>

record object =
  buf :: string
  bufLen :: int
  name :: string
  dlOffset :: int
  size' :: int
  modTime :: time
  rOffset :: int
  completelyLoaded :: bool

datatype error =
    EOF
  | ClientError store_error
  | CopyError io_error
  | LastModifiedChanged time time
  | ParseContentRangeError "rune list option"
  | SeekInvalidWhence
  | SeekNegativePosition
  | SliceBoundsPanic

subsection \<open>Seek, Close, Stat\<close>

definition SeekStart :: int where "SeekStart = 0"
definition SeekCurrent :: int where "SeekCurrent = 1"
definition SeekEnd :: int where "SeekEnd = 2"

definition Seek :: "object \<Rightarrow> int \<Rightarrow> int \<Rightarrow> (error + int) \<times> object" where
  "Seek obj offset whence =
     (if whence = SeekStart \<or> whence = SeekCurrent \<or> whence = SeekEnd then
        (let newOffset =
               (if whence = SeekStart then offset
                else if whence = SeekCurrent then wrap64 (rOffset obj + offset)
                else wrap64 (size' obj + offset))
         in if newOffset < 0 then (Inl SeekNegativePosition, obj)
            else (Inr newOffset, obj\<lparr>rOffset := newOffset\<rparr>))
      else (Inl SeekInvalidWhence, obj))"

definition Close :: "object \<Rightarrow> error option \<times> object" where
  "Close o' = (None, o')"

text \<open>\<^verbatim>\<open>Stat\<close> returns the handle itself as the \<^verbatim>\<open>fs.FileInfo\<close>.\<close>

definition Stat :: "object \<Rightarrow> (error + object) \<times> object" where
  "Stat o' = (Inr o', o')"

definition IsDir :: "object \<Rightarrow> bool" where "IsDir o' = False"
definition ModTime :: "object \<Rightarrow> time" where "ModTime o' = modTime o'"
definition Name :: "object \<Rightarrow> string" where "Name o' = name o'"
definition Size :: "object \<Rightarrow> int" where "Size o' = size' o'"

subsection \<open>Parsing the Content-Range header\<close>

text \<open>
  \<^verbatim>\<open>fmt.Sscanf(*s, "bytes %d-%d/%d", &start, &end, &total)\<close>, unrolled along its format.
  The scanner state is the input that is left; a scan error (a panic that \<^verbatim>\<open>fmt\<close>
  recovers into \<^verbatim>\<open>err\<close>) is \<open>None\<close>. The scanner's limit of \<open>2^30\<close> runes per
  operand is left out: the model is that of inputs shorter than this.
\<close>

definition isSpace :: "rune \<Rightarrow> bool" where
  "isSpace r = ((9 \<le> r \<and> r \<le> 13) \<or> r = 32 \<or> r = 133 \<or> r = 160 \<or> r = 5760
      \<or> (8192 \<le> r \<and> r \<le> 8202) \<or> r = 8232 \<or> r = 8233 \<or> r = 8239 \<or> r = 8287
      \<or> r = 12288)"

definition isDigit :: "rune \<Rightarrow> bool" where
  "isDigit r = (48 \<le> r \<and> r \<le> 57)"

text \<open>A literal rune of the format: the next input rune must be that rune.\<close>

definition literal :: "rune \<Rightarrow> rune list \<Rightarrow> rune list option" where
  "literal c inp = (case inp of [] \<Rightarrow> None | r # rs \<Rightarrow> if r = c then Some rs else None)"

fun literals :: "rune list \<Rightarrow> rune list \<Rightarrow> rune list option" where
  "literals [] inp = Some inp"
| "literals (c # cs) inp = (case literal c inp of None \<Rightarrow> None | Some rs \<Rightarrow> literals cs rs)"

text \<open>
  A space of the format that follows no newline: the input is at its end, or has one
  space that is no newline, and then all further spaces up to a newline are consumed.
\<close>

definition format_space :: "rune list \<Rightarrow> rune list option" where
  "format_space inp =
     (case inp of
        [] \<Rightarrow> Some []
      | r # rs \<Rightarrow>
          if \<not> isSpace r then None
          else if r = 10 then None
          else Some (dropWhile (\<lambda>x. isSpace x \<and> x \<noteq> 10) rs))"

text \<open>\<^verbatim>\<open>SkipSpace\<close> with \<^verbatim>\<open>nlIsSpace = false\<close>: a newline is an error.\<close>

fun SkipSpace :: "rune list \<Rightarrow> rune list option" where
  "SkipSpace [] = Some []"
| "SkipSpace (r # rs) =
     (if r = 13 \<and> (case rs of [] \<Rightarrow> False | x # _ \<Rightarrow> x = 10) then SkipSpace rs
      else if r = 10 then None
      else if isSpace r then SkipSpace rs
      else Some (r # rs))"

definition digits_val :: "rune list \<Rightarrow> nat" where
  "digits_val ds = foldl (\<lambda>acc d. 10 * acc + (d - 48)) 0 ds"

text \<open>\<^verbatim>\<open>strconv.ParseInt(tok, 10, 64)\<close> on a sign and a non-empty run of digits.\<close>

definition ParseInt :: "bool \<Rightarrow> rune list \<Rightarrow> int option" where
  "ParseInt neg ds =
     (let v = int (digits_val ds)
      in if neg then (if v > 2 ^ 63 then None else Some (- v))
         else (if v \<ge> 2 ^ 63 then None else Some v))"

definition scanInt :: "rune list \<Rightarrow> (int \<times> rune list) option" where
  "scanInt inp =
     (case SkipSpace inp of
        None \<Rightarrow> None
      | Some rs \<Rightarrow>
          (case rs of
             [] \<Rightarrow> None
           | r # rs' \<Rightarrow>
               (let neg = (r = 45);
                    rs1 = (if r = 43 \<or> r = 45 then rs' else rs);
                    tok = takeWhile isDigit rs1
                in if tok = [] then None
                   else (case ParseInt neg tok of
                           None \<Rightarrow> None
                         | Some i \<Rightarrow> Some (i, dropWhile isDigit rs1)))))"

text \<open>The verb \<^verbatim>\<open>%d\<close>: \<^verbatim>\<open>doScanf\<close> skips space, then \<^verbatim>\<open>scanInt\<close> does.\<close>

definition verb_d :: "rune list \<Rightarrow> (int \<times> rune list) option" where
  "verb_d inp = (case SkipSpace inp of None \<Rightarrow> None | Some rs \<Rightarrow> scanInt rs)"

text \<open>
  The result is \<open>(start, end, total, n, failed)\<close>: the operands assigned so far, their
  number, and whether \<^verbatim>\<open>err\<close> is set. Input after the last verb is not looked at.
\<close>

definition Sscanf :: "rune list \<Rightarrow> int \<times> int \<times> int \<times> nat \<times> bool" where
  "Sscanf inp =
     (case literals (runes ''bytes'') inp of None \<Rightarrow> (0, 0, 0, 0, True) | Some r1 \<Rightarrow>
      case format_space r1 of None \<Rightarrow> (0, 0, 0, 0, True) | Some r2 \<Rightarrow>
      case verb_d r2 of None \<Rightarrow> (0, 0, 0, 0, True) | Some (a, r3) \<Rightarrow>
      case literal 45 r3 of None \<Rightarrow> (a, 0, 0, 1, True) | Some r4 \<Rightarrow>
      case verb_d r4 of None \<Rightarrow> (a, 0, 0, 1, True) | Some (b, r5) \<Rightarrow>
      case literal 47 r5 of None \<Rightarrow> (a, b, 0, 2, True) | Some r6 \<Rightarrow>
      case verb_d r6 of None \<Rightarrow> (a, b, 0, 2, True) | Some (c, r7) \<Rightarrow> (a, b, c, 3, False))"

definition parseContentRange :: "rune list option \<Rightarrow> int \<times> int \<times> int \<times> bool" where
  "parseContentRange s =
     (case s of
        None \<Rightarrow> (0, 0, 0, False)
      | Some str \<Rightarrow>
          (case Sscanf str of
             (start, end', tot, n, failed) \<Rightarrow>
               if failed then (start, end', tot, False)
               else (start, end', tot, n = 3)))"

subsection \<open>Fetching\<close>

text \<open>
  \<^verbatim>\<open>io.Copy(&obj.buf, rsp.body)\<close>: \<^verbatim>\<open>bytes.Buffer.ReadFrom\<close> appends what the body
  yields and reports the body's error, if any.
\<close>

definition io_Copy :: "string \<Rightarrow> body_stream \<Rightarrow> string \<times> io_error option" where
  "io_Copy b src = (b @ payload src, fault src)"

text \<open>
  The \<^verbatim>\<open>switch\<close> of \<^verbatim>\<open>parseFullResponse\<close> tests \<^verbatim>\<open>IsZero\<close> first and the
  inequality second; its \<^verbatim>\<open>default\<close> falls through to the assignment. So the error
  is returned exactly when the recorded time is not zero and differs.
\<close>

definition parseFullResponse :: "getObjectResponse \<Rightarrow> object \<Rightarrow> error option \<times> object" where
  "parseFullResponse rsp obj =
     (if \<not> IsZero (modTime obj) \<and> modTime obj \<noteq> lastModified rsp then
        (Some (LastModifiedChanged (modTime obj) (lastModified rsp)), obj)
      else
        (let obj1 = obj\<lparr>modTime := lastModified rsp\<rparr>;
             (b, err) = io_Copy (buf obj1) (body rsp);
             obj2 = obj1\<lparr>buf := b\<rparr>
         in case err of
              Some e \<Rightarrow> (Some (CopyError e), obj2)
            | None \<Rightarrow> (None, obj2\<lparr>size' := contentLength rsp, completelyLoaded := True\<rparr>)))"

definition parsePartialResponse :: "getObjectResponse \<Rightarrow> object \<Rightarrow> error option \<times> object" where
  "parsePartialResponse rsp obj =
     (let obj1 = obj\<lparr>modTime := lastModified rsp\<rparr>;
          (b, err) = io_Copy (buf obj1) (body rsp);
          obj2 = obj1\<lparr>buf := b\<rparr>
      in case err of
           Some e \<Rightarrow> (Some (CopyError e), obj2)
         | None \<Rightarrow>
             (case parseContentRange (contentRange rsp) of
                (start, end', tot, ok) \<Rightarrow>
                  if \<not> ok then (Some (ParseContentRangeError (contentRange rsp)), obj2)
                  else (None, obj2\<lparr>size' := tot,
                                    dlOffset := wrap64 (end' + 1),
                                    completelyLoaded := (end' = wrap64 (tot - 1))\<rparr>)))"

definition dl :: "'w client \<Rightarrow> object \<times> 'w \<Rightarrow> error option \<times> object \<times> 'w" where
  "dl cl s =
     (case s of (obj, w) \<Rightarrow>
        (case cl w (name obj) (- 1) 0 of
           (Inl e, w') \<Rightarrow> (Some (ClientError e), obj, w')
         | (Inr rsp, w') \<Rightarrow>
             (case parseFullResponse rsp obj of (r, obj') \<Rightarrow> (r, obj', w'))))"

definition fillChunk :: "'w client \<Rightarrow> bool \<Rightarrow> object \<times> 'w \<Rightarrow> error option \<times> object \<times> 'w" where
  "fillChunk cl full s =
     (case s of (obj, w) \<Rightarrow>
        if bufLen obj = 0 then dl cl (obj, w)
        else
          (let end' = (if full then wrap64 (size' obj - 1)
                       else wrap64 (dlOffset obj + bufLen obj - 1))
           in case cl w (name obj) (dlOffset obj) end' of
                (Inl e, w') \<Rightarrow>
                  if dlOffset obj = 0 then dl cl (obj, w')
                  else (Some (ClientError e), obj, w')
              | (Inr rsp, w') \<Rightarrow>
                  (case parsePartialResponse rsp obj of (r, obj') \<Rightarrow> (r, obj', w'))))"

subsection \<open>Read\<close>

text \<open>
  \<open>Read cl n\<close> is \<^verbatim>\<open>obj.Read(b)\<close> with \<^verbatim>\<open>len(b) = n\<close>; the bytes copied into
  \<^verbatim>\<open>b\<close> are the result, their number is the \<^verbatim>\<open>n\<close> that Go returns. The slice
  expression \<^verbatim>\<open>obj.buf.Bytes()[obj.rOffset:]\<close> panics out of range.
\<close>

definition Read :: "'w client \<Rightarrow> nat \<Rightarrow> object \<times> 'w \<Rightarrow> (error + string) \<times> object \<times> 'w" where
  "Read cl n s =
     (case s of (obj, w) \<Rightarrow>
        if rOffset obj \<ge> size' obj then (Inl EOF, obj, w)
        else
          (case (if \<not> completelyLoaded obj then
                   (if rOffset obj > dlOffset obj then fillChunk cl True (obj, w)
                    else if int (length (buf obj)) - rOffset obj < int n
                         then fillChunk cl False (obj, w)
                    else (None, obj, w))
                 else (None, obj, w)) of
             (Some e, obj1, w1) \<Rightarrow> (Inl e, obj1, w1)
           | (None, obj1, w1) \<Rightarrow>
               if rOffset obj1 < 0 \<or> rOffset obj1 > int (length (buf obj1))
               then (Inl SliceBoundsPanic, obj1, w1)
               else (let bs = take n (drop (nat (rOffset obj1)) (buf obj1))
                     in (Inr bs, obj1\<lparr>rOffset := rOffset obj1 + int (length bs)\<rparr>, w1))))"

subsection \<open>Opening and reading whole files (s3.go)\<close>

definition new_object :: "int \<Rightarrow> string \<Rightarrow> object" where
  "new_object bl nm =
     \<lparr>buf = [], bufLen = bl, name = nm, dlOffset = 0, size' = 0, modTime = 0,
      rOffset = 0, completelyLoaded = False\<rparr>"

text \<open>\<^verbatim>\<open>OpenWithContext\<close> returns the handle together with the error of the first fetch.\<close>

definition OpenWithContext :: "'w client \<Rightarrow> int \<Rightarrow> string \<Rightarrow> 'w \<Rightarrow> error option \<times> object \<times> 'w" where
  "OpenWithContext cl bl nm w = fillChunk cl False (new_object bl nm, w)"

definition ReadFileWithContext :: "'w client \<Rightarrow> int \<Rightarrow> string \<Rightarrow> 'w \<Rightarrow> (error + string) \<times> 'w" where
  "ReadFileWithContext cl bl nm w =
     (case dl cl (new_object bl nm, w) of
        (Some e, obj, w') \<Rightarrow> (Inl e, w')
      | (None, obj, w') \<Rightarrow> (Inr (buf obj), w'))"

subsection \<open>Calls on a handle, one at a time\<close>

text \<open>
  The methods a caller can invoke on an open handle, and a run of such calls. The world
  is passed along: \<^verbatim>\<open>Seek\<close>, \<^verbatim>\<open>Close\<close> and \<^verbatim>\<open>Stat\<close> have no access to it, since
  their bodies make no call on \<^verbatim>\<open>obj.client\<close>.
\<close>

datatype call = CallRead nat | CallSeek int int | CallClose | CallStat

datatype result =
    ReadResult "error + string"
  | SeekResult "error + int"
  | CloseResult "error option"
  | StatResult "error + object"

definition step :: "'w client \<Rightarrow> call \<Rightarrow> object \<times> 'w \<Rightarrow> result \<times> object \<times> 'w" where
  "step cl c s =
     (case s of (obj, w) \<Rightarrow>
        (case c of
           CallRead n \<Rightarrow> (case Read cl n (obj, w) of (r, obj', w') \<Rightarrow> (ReadResult r, obj', w'))
         | CallSeek offset whence \<Rightarrow>
             (case Seek obj offset whence of (r, obj') \<Rightarrow> (SeekResult r, obj', w))
         | CallClose \<Rightarrow> (case Close obj of (r, obj') \<Rightarrow> (CloseResult r, obj', w))
         | CallStat \<Rightarrow> (case Stat obj of (r, obj') \<Rightarrow> (StatResult r, obj', w))))"

fun run :: "'w client \<Rightarrow> call list \<Rightarrow> object \<times> 'w \<Rightarrow> result list \<times> object \<times> 'w" where
  "run cl [] s = ([], s)"
| "run cl (c # cs) s =
     (case step cl c s of (r, s') \<Rightarrow> (case run cl cs s' of (rs, s'') \<Rightarrow> (r # rs, s'')))"

text \<open>A client that records every request it receives, in order.\<close>

definition logged :: "'w client \<Rightarrow> ((string \<times> int \<times> int) list \<times> 'w) client" where
  "logged cl lw key offset cnt =
     (case lw of (log, w) \<Rightarrow>
        (case cl w key offset cnt of (r, w') \<Rightarrow> (r, (log @ [(key, offset, cnt)], w'))))"

text \<open>
  Reading until end-of-stream: one \<^verbatim>\<open>Read\<close> per element of \<open>ns\<close>, the lengths of the
  caller's slices, until a \<^verbatim>\<open>Read\<close> reports \<^verbatim>\<open>io.EOF\<close> (the bytes read so far are the
  result) or another error. \<open>None\<close>: the list ran out before the stream ended.
\<close>

fun read_until_eof ::
  "'w client \<Rightarrow> nat list \<Rightarrow> object \<times> 'w \<Rightarrow> string \<Rightarrow> (error + string) option" where
  "read_until_eof cl [] s acc = None"
| "read_until_eof cl (n # ns) s acc =
     (case Read cl n s of
        (Inl e, s') \<Rightarrow> (if e = EOF then Some (Inr acc) else Some (Inl e))
      | (Inr bs, s') \<Rightarrow> read_until_eof cl ns s' (acc @ bs))"

subsection \<open>Formatting decimal numbers\<close>

text \<open>The verb \<^verbatim>\<open>%d\<close> of \<^verbatim>\<open>fmt.Sprintf\<close> on an integer.\<close>

fun dec :: "nat \<Rightarrow> rune list" where
  "dec n = (if n < 10 then [48 + n] else dec (n div 10) @ [48 + n mod 10])"

definition fmt_d :: "int \<Rightarrow> rune list" where
  "fmt_d i = (if i < 0 then 45 # dec (nat (- i)) else dec (nat i))"

text \<open>The header \<^verbatim>\<open>bytes start-end/total\<close> of a ranged response.\<close>

definition content_range_header :: "int \<Rightarrow> int \<Rightarrow> int \<Rightarrow> rune list" where
  "content_range_header a b t = runes ''bytes '' @ fmt_d a @ [45] @ fmt_d b @ [47] @ fmt_d t"

subsection \<open>The two backend adapters\<close>

text \<open>
  Each adapter builds a provider request and copies four fields of the provider's
  response. The provider SDK call is a parameter. Dereferencing a nil
  \<^verbatim>\<open>ContentLength\<close> or \<^verbatim>\<open>LastModified\<close> panics.
\<close>

record GetObjectInput =
  Bucket :: string
  Key :: string
  Range :: "rune list option"

record HTTPRange =
  Offset :: int
  Count :: int

record DownloadStreamInput =
  containerName :: string
  blobName :: string
  RangeOpt :: HTTPRange

record provider_output =
  Body :: body_stream
  ContentLength :: "int option"
  ContentRange :: "rune list option"
  LastModified :: "time option"

definition response_of :: "provider_output \<Rightarrow> store_error + getObjectResponse" where
  "response_of rsp =
     (case ContentLength rsp of
        None \<Rightarrow> Inl NilDereference
      | Some n \<Rightarrow>
          (case LastModified rsp of
             None \<Rightarrow> Inl NilDereference
           | Some t \<Rightarrow>
               Inr \<lparr>body = Body rsp, contentLength = n, contentRange = ContentRange rsp,
                    lastModified = t\<rparr>))"

definition s3_input :: "string \<Rightarrow> string \<Rightarrow> int \<Rightarrow> int \<Rightarrow> GetObjectInput" where
  "s3_input bucket key offset cnt =
     \<lparr>Bucket = bucket, Key = key,
      Range = (if offset > - 1
               then Some (runes ''bytes='' @ fmt_d offset @ [45] @ fmt_d cnt)
               else None)\<rparr>"

definition s3Client_getObject ::
  "('w \<Rightarrow> GetObjectInput \<Rightarrow> (store_error + provider_output) \<times> 'w) \<Rightarrow> string \<Rightarrow> 'w client" where
  "s3Client_getObject sdk bucket w key offset cnt =
     (case sdk w (s3_input bucket key offset cnt) of
        (Inl e, w') \<Rightarrow> (Inl e, w')
      | (Inr rsp, w') \<Rightarrow> (response_of rsp, w'))"

definition blob_input :: "string \<Rightarrow> string \<Rightarrow> int \<Rightarrow> int \<Rightarrow> DownloadStreamInput" where
  "blob_input cont key offset cnt =
     \<lparr>containerName = cont, blobName = key,
      RangeOpt = (if offset > - 1 then \<lparr>Offset = offset, Count = cnt\<rparr>
                  else \<lparr>Offset = 0, Count = 0\<rparr>)\<rparr>"

definition blobClient_getObject ::
  "('w \<Rightarrow> DownloadStreamInput \<Rightarrow> (store_error + provider_output) \<times> 'w) \<Rightarrow> string \<Rightarrow> 'w client" where
  "blobClient_getObject sdk cont w key offset cnt =
     (case sdk w (blob_input cont key offset cnt) of
        (Inl e, w') \<Rightarrow> (Inl e, w')
      | (Inr rsp, w') \<Rightarrow> (response_of rsp, w'))"

text \<open>
  What a provider request asks for. An S3 \<^verbatim>\<open>Range\<close> header \<^verbatim>\<open>bytes=a-b\<close> is the
  inclusive range from \<open>a\<close> to \<open>b\<close>. An Azure \<^verbatim>\<open>blob.HTTPRange\<close> is, by the SDK's
  documentation, \<^verbatim>\<open>Count\<close> bytes from \<^verbatim>\<open>Offset\<close>; a zero \<^verbatim>\<open>Count\<close> means up to the
  end, and the zero value means the entire blob.
\<close>

datatype byte_range = WholeObject | FromTo int int | FromOffset int

definition HTTPRange_denotes :: "HTTPRange \<Rightarrow> byte_range" where
  "HTTPRange_denotes r =
     (if Offset r = 0 \<and> Count r = 0 then WholeObject
      else if Count r > 0 then FromTo (Offset r) (Offset r + Count r - 1)
      else FromOffset (Offset r))"

subsection \<open>An in-memory store\<close>

text \<open>
  Modelled from the spec: the store behind the client capability (sections 4.2 and 6),
  which is a remote service and no code of the repository. It maps a key to its content
  and last-modified time. A ranged request with a valid range past the end of the object
  fails with range-not-satisfiable, notably on a zero-length object; otherwise it returns
  the bytes of the range, cut at the end of the object, with the header
  \<^verbatim>\<open>bytes start-end/total\<close>. A request with a negative offset, or with a range whose
  end is before its start, returns the whole object and no content-range. A missing key
  fails with not-found.
\<close>

type_synonym store = "string \<Rightarrow> (string \<times> time) option"

definition store_getObject :: "store client" where
  "store_getObject st key offset cnt =
     (case st key of
        None \<Rightarrow> (Inl NoSuchKey, st)
      | Some (C, t) \<Rightarrow>
          if offset > - 1 \<and> offset \<le> cnt then
            (if int (length C) \<le> offset then (Inl RangeNotSatisfiable, st)
             else
               (let last' = min cnt (int (length C) - 1)
                in (Inr \<lparr>body = \<lparr>payload = take (nat (last' - offset + 1)) (drop (nat offset) C),
                                 fault = None\<rparr>,
                         contentLength = last' - offset + 1,
                         contentRange = Some (content_range_header offset last' (int (length C))),
                         lastModified = t\<rparr>, st)))
          else
            (Inr \<lparr>body = \<lparr>payload = C, fault = None\<rparr>,
                  contentLength = int (length C),
                  contentRange = None,
                  lastModified = t\<rparr>, st))"

subsection \<open>The seek target as the specification words it, and sample handles\<close>

text \<open>
  The absolute target of a seek as the specification gives it: the offset itself from
  the start, the read offset plus the offset from the current position, the size plus
  the offset from the end, in \<^verbatim>\<open>int64\<close> arithmetic.
\<close>

definition spec_seek_target :: "object \<Rightarrow> int \<Rightarrow> int \<Rightarrow> int" where
  "spec_seek_target obj offset whence =
     (if whence = SeekStart then offset
      else if whence = SeekCurrent then wrap64 (rOffset obj + offset)
      else wrap64 (size' obj + offset))"

text \<open>A handle on a 12-byte object after its first one-byte chunk.\<close>

definition sample_object :: object where
  "sample_object =
     \<lparr>buf = ''h'', bufLen = 1, name = ''k'', dlOffset = 1, size' = 12, modTime = 7,
      rOffset = 0, completelyLoaded = False\<rparr>"

text \<open>A store with one 12-byte object, and one with an empty object.\<close>

definition sample_store :: store where
  "sample_store = (\<lambda>k. if k = ''k'' then Some (''hello, world'', 7) else None)"

definition empty_store :: store where
  "empty_store = (\<lambda>k. if k = ''k'' then Some ([], 7) else None)"

subsection \<open>Numerals and lookahead of the header grammar\<close>

text \<open>The input that follows a number must not go on with a digit.\<close>

definition no_digit_ahead :: "rune list \<Rightarrow> bool" where
  "no_digit_ahead rest = (case rest of [] \<Rightarrow> True | r # _ \<Rightarrow> \<not> isDigit r)"

text \<open>
  The value of a decimal numeral with an optional sign that fits \<^verbatim>\<open>int64\<close>; \<open>None\<close>
  for any other token.
\<close>

definition numeral_value :: "rune list \<Rightarrow> int option" where
  "numeral_value tok =
     (case tok of
        [] \<Rightarrow> None
      | r # rs \<Rightarrow>
          (let ds = (if r = 43 \<or> r = 45 then rs else tok);
               v = (if r = 45 then - int (digits_val ds) else int (digits_val ds))
           in if ds \<noteq> [] \<and> list_all isDigit ds \<and> is_int64 v then Some v else None))"

subsection \<open>What a handle on a faithfully served object looks like\<close>

text \<open>
  The state of a handle with chunk size \<open>c\<close> on the object \<open>key\<close> of content \<open>C\<close> and
  last-modified time \<open>t\<close>: the buffer is a prefix of the content, the download offset is
  its length, the handle is complete exactly when the buffer is the whole content, and
  an incomplete handle holds at least one chunk.
\<close>

definition reader_inv :: "string \<Rightarrow> time \<Rightarrow> int \<Rightarrow> string \<Rightarrow> object \<Rightarrow> bool" where
  "reader_inv C t c key obj =
     (bufLen obj = c \<and> name obj = key \<and> size' obj = int (length C) \<and> modTime obj = t \<and>
      dlOffset obj = int (length (buf obj)) \<and> prefix (buf obj) C \<and>
      (completelyLoaded obj = (buf obj = C)) \<and>
      (completelyLoaded obj \<or> c \<le> dlOffset obj) \<and> 0 \<le> rOffset obj)"

subsection \<open>Test doubles and the frame of a failed fetch\<close>

text \<open>A client that answers from a script, one entry per request, whatever is asked.\<close>

definition scripted :: "((store_error + getObjectResponse) list) client" where
  "scripted script key offset cnt =
     (case script of [] \<Rightarrow> (Inl TransportError, []) | r # rs \<Rightarrow> (r, rs))"

text \<open>A response with the given payload, end of body, content-range and time.\<close>

definition chunk :: "string \<Rightarrow> io_error option \<Rightarrow> rune list option \<Rightarrow> time \<Rightarrow> getObjectResponse" where
  "chunk p f h t =
     \<lparr>body = \<lparr>payload = p, fault = f\<rparr>, contentLength = int (length p),
      contentRange = h, lastModified = t\<rparr>"

text \<open>
  What a failed fetch leaves of a handle: the cursors, the size, the completion flag, the
  chunk size and the name as they were; the old buffer a prefix of the new one.
\<close>

definition frame_kept :: "object \<Rightarrow> object \<Rightarrow> bool" where
  "frame_kept obj obj' =
     (dlOffset obj' = dlOffset obj \<and> rOffset obj' = rOffset obj \<and> size' obj' = size' obj \<and>
      completelyLoaded obj' = completelyLoaded obj \<and> bufLen obj' = bufLen obj \<and>
      name obj' = name obj \<and> prefix (buf obj) (buf obj'))"

text \<open>The errors that are returned before any byte of a body is drained.\<close>

definition refused_before_draining :: "error \<Rightarrow> bool" where
  "refused_before_draining e =
     (case e of ClientError _ \<Rightarrow> True | LastModifiedChanged _ _ \<Rightarrow> True | _ \<Rightarrow> False)"

section \<open>Properties\<close>

subsection \<open>Seek\<close>

lemma wrap64_id: "is_int64 x \<Longrightarrow> wrap64 x = x"
  by (simp add: wrap64_def is_int64_def)

lemma Seek_by_target:
  "whence = SeekStart \<or> whence = SeekCurrent \<or> whence = SeekEnd \<Longrightarrow>
   Seek obj offset whence =
     (if spec_seek_target obj offset whence < 0 then (Inl SeekNegativePosition, obj)
      else (Inr (spec_seek_target obj offset whence),
            obj\<lparr>rOffset := spec_seek_target obj offset whence\<rparr>))"
  unfolding Seek_def spec_seek_target_def Let_def by (simp only: if_True)

lemma Seek_Inr:
  assumes "Seek obj offset whence = (Inr t, obj')"
  shows "obj' = obj\<lparr>rOffset := t\<rparr>"
proof (cases "whence = SeekStart \<or> whence = SeekCurrent \<or> whence = SeekEnd")
  case True
  from assms Seek_by_target [OF True, of obj offset] show ?thesis
    by (auto split: if_splits)
next
  case False
  then have "Seek obj offset whence = (Inl SeekInvalidWhence, obj)"
    by (simp add: Seek_def)
  with assms show ?thesis by simp
qed

lemma step_Seek:
  "step cl (CallSeek offset whence) (obj, w) =
     (SeekResult (fst (Seek obj offset whence)), snd (Seek obj offset whence), w)"
  by (simp add: step_def split: prod.splits)

text \<open>
  Claim C9. \<^verbatim>\<open>Seek(offset, whence)\<close> with one of the three whence values computes the
  target as the offset for Start, the read offset plus the offset for Current and the
  size plus the offset for End (the \<^verbatim>\<open>int64\<close> sums, which are the exact sums whenever
  those fit 64 bits). A negative target is an error that leaves the handle as it was;
  otherwise the read offset becomes the target, which is returned, and nothing else of
  the handle changes. No request reaches the store client: the request log and the
  world are as before.
\<close>

theorem Seek_target_and_effect:
  "whence = SeekStart \<or> whence = SeekCurrent \<or> whence = SeekEnd \<Longrightarrow>
     (spec_seek_target obj offset whence < 0 \<longrightarrow>
        Seek obj offset whence = (Inl SeekNegativePosition, obj)) \<and>
     (0 \<le> spec_seek_target obj offset whence \<longrightarrow>
        Seek obj offset whence =
          (Inr (spec_seek_target obj offset whence),
           obj\<lparr>rOffset := spec_seek_target obj offset whence\<rparr>)) \<and>
     (is_int64 (rOffset obj + offset) \<longrightarrow>
        spec_seek_target obj offset SeekCurrent = rOffset obj + offset) \<and>
     (is_int64 (size' obj + offset) \<longrightarrow>
        spec_seek_target obj offset SeekEnd = size' obj + offset) \<and>
     spec_seek_target obj offset SeekStart = offset \<and>
     snd (snd (step (logged cl) (CallSeek offset whence) (obj, (log, w)))) = (log, w) \<and>
     step cl (CallSeek offset whence) (obj, w) =
       (SeekResult (fst (Seek obj offset whence)), snd (Seek obj offset whence), w)"
proof -
  assume wh: "whence = SeekStart \<or> whence = SeekCurrent \<or> whence = SeekEnd"
  have a: "spec_seek_target obj offset whence < 0 \<longrightarrow>
        Seek obj offset whence = (Inl SeekNegativePosition, obj)"
    by (simp add: Seek_by_target [OF wh])
  have b: "0 \<le> spec_seek_target obj offset whence \<longrightarrow>
        Seek obj offset whence =
          (Inr (spec_seek_target obj offset whence),
           obj\<lparr>rOffset := spec_seek_target obj offset whence\<rparr>)"
    by (simp add: Seek_by_target [OF wh])
  have c: "is_int64 (rOffset obj + offset) \<longrightarrow>
        spec_seek_target obj offset SeekCurrent = rOffset obj + offset"
    by (simp add: spec_seek_target_def SeekStart_def SeekCurrent_def wrap64_id)
  have d: "is_int64 (size' obj + offset) \<longrightarrow>
        spec_seek_target obj offset SeekEnd = size' obj + offset"
    by (simp add: spec_seek_target_def SeekStart_def SeekCurrent_def SeekEnd_def wrap64_id)
  have e: "spec_seek_target obj offset SeekStart = offset"
    by (simp add: spec_seek_target_def)
  have f: "snd (snd (step (logged cl) (CallSeek offset whence) (obj, (log, w)))) = (log, w)"
    by (simp add: step_Seek)
  show ?thesis by (intro conjI a b c d e f step_Seek)
qed

theorem Seek_target_and_effect_witness:
  "Seek sample_object (- 5) SeekEnd = (Inr 7, sample_object\<lparr>rOffset := 7\<rparr>) \<and>
   Seek sample_object (- 1) SeekCurrent = (Inl SeekNegativePosition, sample_object) \<and>
   snd (snd (step (logged store_getObject) (CallSeek (- 5) SeekEnd) (sample_object, ([], sample_store)))) = ([], sample_store)"
proof -
  have t1: "spec_seek_target sample_object (- 5) SeekEnd = 7"
    by (simp add: spec_seek_target_def sample_object_def SeekStart_def SeekCurrent_def
        SeekEnd_def wrap64_def)
  have t2: "spec_seek_target sample_object (- 1) SeekCurrent = - 1"
    by (simp add: spec_seek_target_def sample_object_def SeekStart_def SeekCurrent_def
        SeekEnd_def wrap64_def)
  from Seek_target_and_effect [of SeekEnd sample_object "- 5" store_getObject "[]" sample_store] t1
  have a: "Seek sample_object (- 5) SeekEnd = (Inr 7, sample_object\<lparr>rOffset := 7\<rparr>)"
    and c: "snd (snd (step (logged store_getObject) (CallSeek (- 5) SeekEnd) (sample_object, ([], sample_store)))) = ([], sample_store)"
    by simp_all
  from Seek_target_and_effect [of SeekCurrent sample_object "- 1" store_getObject "[]" sample_store] t2
  have b: "Seek sample_object (- 1) SeekCurrent = (Inl SeekNegativePosition, sample_object)"
    by simp
  from a b c show ?thesis by simp
qed

subsection \<open>Read at or past the end\<close>

lemma Read_EOF: "size' obj \<le> rOffset obj \<Longrightarrow> Read cl n (obj, w) = (Inl EOF, obj, w)"
  by (simp add: Read_def)

text \<open>
  Claim C8. A \<^verbatim>\<open>Read\<close> made while the read offset is at or past the size returns no
  bytes and \<^verbatim>\<open>io.EOF\<close>, leaves the handle as it was and sends nothing to the store
  client (the world, and the log of a logging client, are unchanged); so does the first
  \<^verbatim>\<open>Read\<close> after a \<^verbatim>\<open>Seek\<close> that succeeded with a target at or past the size.
\<close>

theorem Read_at_or_past_size_is_EOF:
  "(size' obj \<le> rOffset obj \<longrightarrow>
      Read cl n (obj, w) = (Inl EOF, obj, w) \<and>
      Read (logged cl) n (obj, (log, w)) = (Inl EOF, obj, (log, w))) \<and>
   (Seek obj offset whence = (Inr t, obj') \<and> size' obj \<le> t \<longrightarrow>
      Read cl n (obj', w) = (Inl EOF, obj', w) \<and>
      Read (logged cl) n (obj', (log, w)) = (Inl EOF, obj', (log, w)))"
proof (intro conjI impI)
  assume "size' obj \<le> rOffset obj"
  then show "Read cl n (obj, w) = (Inl EOF, obj, w)"
    and "Read (logged cl) n (obj, (log, w)) = (Inl EOF, obj, (log, w))"
    by (rule Read_EOF)+
next
  assume a: "Seek obj offset whence = (Inr t, obj') \<and> size' obj \<le> t"
  then have "Seek obj offset whence = (Inr t, obj')" by (rule conjunct1)
  then have "obj' = obj\<lparr>rOffset := t\<rparr>" by (rule Seek_Inr)
  with a have "size' obj' \<le> rOffset obj'" by simp
  then show "Read cl n (obj', w) = (Inl EOF, obj', w)"
    and "Read (logged cl) n (obj', (log, w)) = (Inl EOF, obj', (log, w))"
    by (rule Read_EOF)+
qed

theorem Read_at_or_past_size_is_EOF_witness:
  "Seek sample_object 12 SeekStart = (Inr 12, sample_object\<lparr>rOffset := 12\<rparr>) \<and>
   Read store_getObject 4 (sample_object\<lparr>rOffset := 12\<rparr>, sample_store) = (Inl EOF, sample_object\<lparr>rOffset := 12\<rparr>, sample_store) \<and>
   Read (logged store_getObject) 4 (sample_object\<lparr>rOffset := 12\<rparr>, ([], sample_store)) =
     (Inl EOF, sample_object\<lparr>rOffset := 12\<rparr>, ([], sample_store))"
proof -
  have s: "Seek sample_object 12 SeekStart = (Inr 12, sample_object\<lparr>rOffset := 12\<rparr>)"
    by (simp add: Seek_def SeekStart_def sample_object_def)
  have z: "size' sample_object \<le> 12"
    by (simp add: sample_object_def)
  from Read_at_or_past_size_is_EOF
    [of sample_object store_getObject 4 sample_store "[]" 12 SeekStart 12 "sample_object\<lparr>rOffset := 12\<rparr>"] s z
  show ?thesis by simp
qed

subsection \<open>Close\<close>

lemma run_Close: "run cl (replicate k CallClose) s = (replicate k (CloseResult None), s)"
  by (induction k) (auto simp add: step_def Close_def split: prod.splits)

lemma run_with_Close:
  "run cl (cs @ CallClose # cs') s =
     (case run cl cs s of (rs, s1) \<Rightarrow>
        (case run cl cs' s1 of (rs', s') \<Rightarrow> (rs @ CloseResult None # rs', s')))"
  by (induction cs arbitrary: s) (auto simp add: step_def Close_def split: prod.splits)

text \<open>
  Claim C10. \<^verbatim>\<open>Close\<close> returns nil and leaves every field of the handle as it was;
  any number of \<^verbatim>\<open>Close\<close> calls in a row does; a \<^verbatim>\<open>Read\<close>, \<^verbatim>\<open>Seek\<close> or \<^verbatim>\<open>Stat\<close>
  after a \<^verbatim>\<open>Close\<close> gives what it gives without it; and a \<^verbatim>\<open>Close\<close> put anywhere
  in a run of calls changes no other result and not the final state.
\<close>

theorem Close_is_a_no_op:
  "Close obj = (None, obj) \<and>
   run cl (replicate k CallClose) (obj, w) = (replicate k (CloseResult None), obj, w) \<and>
   step cl c (snd (step cl CallClose (obj, w))) = step cl c (obj, w) \<and>
   run cl (cs @ CallClose # cs') (obj, w) =
     (case run cl cs (obj, w) of (rs, s) \<Rightarrow>
        (case run cl cs' s of (rs', s') \<Rightarrow> (rs @ CloseResult None # rs', s')))"
  using run_with_Close [of cl cs cs' "(obj, w)"] run_Close [of cl k "(obj, w)"]
  by (simp add: Close_def step_def)

subsection \<open>The Content-Range parser\<close>

declare dec.simps [simp del]

lemma dec_digits: "d \<in> set (dec n) \<Longrightarrow> isDigit d"
proof (induction n arbitrary: d rule: dec.induct)
  case (1 n)
  show ?case
  proof (cases "n < 10")
    case True
    with "1.prems" show ?thesis by (simp add: dec.simps [of n] isDigit_def)
  next
    case False
    with "1.prems" have "d \<in> set (dec (n div 10)) \<or> d = 48 + n mod 10"
      by (auto simp add: dec.simps [of n])
    then show ?thesis
    proof
      assume "d \<in> set (dec (n div 10))"
      with False "1.IH" show ?thesis by simp
    next
      assume "d = 48 + n mod 10"
      moreover have "n mod 10 < 10" by simp
      ultimately show ?thesis unfolding isDigit_def by linarith
    qed
  qed
qed

lemma dec_nonempty: "dec n \<noteq> []"
  by (subst dec.simps) simp

lemma digits_val_snoc: "digits_val (ds @ [d]) = 10 * digits_val ds + (d - 48)"
  by (simp add: digits_val_def)

lemma digits_val_dec: "digits_val (dec n) = n"
proof (induction n rule: dec.induct)
  case (1 n)
  show ?case
  proof (cases "n < 10")
    case True
    then show ?thesis by (simp add: dec.simps [of n] digits_val_def)
  next
    case False
    with "1.IH" have "digits_val (dec (n div 10)) = n div 10" by simp
    with False show ?thesis by (simp add: dec.simps [of n] digits_val_snoc)
  qed
qed

lemma isDigit_not_space: "isDigit r \<Longrightarrow> \<not> isSpace r"
  by (auto simp add: isDigit_def isSpace_def)

lemma isDigit_not_sign: "isDigit r \<Longrightarrow> r \<noteq> 43 \<and> r \<noteq> 45 \<and> r \<noteq> 10 \<and> r \<noteq> 13"
  by (auto simp add: isDigit_def)

lemma SkipSpace_digit: "isDigit r \<Longrightarrow> SkipSpace (r # rs) = Some (r # rs)"
  using isDigit_not_space [of r] isDigit_not_sign [of r] by simp

lemma dec_Cons: "\<exists>r rs. dec n = r # rs \<and> isDigit r"
proof (cases "dec n")
  case Nil
  with dec_nonempty show ?thesis by simp
next
  case (Cons r rs)
  with dec_digits [of r n] show ?thesis by simp
qed

lemma takeWhile_dec: "no_digit_ahead rest \<Longrightarrow> takeWhile isDigit (dec n @ rest) = dec n"
  by (cases rest) (simp_all add: no_digit_ahead_def takeWhile_append2 dec_digits)

lemma dropWhile_dec: "no_digit_ahead rest \<Longrightarrow> dropWhile isDigit (dec n @ rest) = rest"
  by (cases rest) (simp_all add: no_digit_ahead_def dropWhile_append2 dec_digits)

lemma scanInt_dec:
  assumes "int n < 2 ^ 63" and "no_digit_ahead rest"
  shows "scanInt (dec n @ rest) = Some (int n, rest)"
proof -
  obtain r rs where d: "dec n = r # rs" and r: "isDigit r"
    using dec_Cons by blast
  have sk: "SkipSpace (dec n @ rest) = Some (r # rs @ rest)"
    using SkipSpace_digit [OF r] d by simp
  have tk: "takeWhile isDigit (r # rs @ rest) = dec n"
    using takeWhile_dec [OF assms(2), of n] d by simp
  have dr: "dropWhile isDigit (r # rs @ rest) = rest"
    using dropWhile_dec [OF assms(2), of n] d by simp
  have pi: "ParseInt False (dec n) = Some (int n)"
    using assms(1) by (simp add: ParseInt_def digits_val_dec)
  from isDigit_not_sign [OF r] have ns: "r \<noteq> 43" "r \<noteq> 45" by simp_all
  show ?thesis
    unfolding scanInt_def sk
    using ns tk dr pi dec_nonempty [of n] by (simp add: Let_def)
qed

lemma verb_d_dec:
  assumes "int n < 2 ^ 63" and "no_digit_ahead rest"
  shows "verb_d (dec n @ rest) = Some (int n, rest)"
proof -
  obtain r rs where d: "dec n = r # rs" and r: "isDigit r"
    using dec_Cons by blast
  have sk: "SkipSpace (dec n @ rest) = Some (dec n @ rest)"
    using SkipSpace_digit [OF r] d by simp
  show ?thesis unfolding verb_d_def sk using scanInt_dec [OF assms] by simp
qed

lemma literals_append: "literals cs (cs @ rs) = Some rs"
  by (induction cs) (simp_all add: literal_def)

lemma format_space_dec: "format_space (32 # dec n @ rest) = Some (dec n @ rest)"
proof -
  obtain r rs where d: "dec n = r # rs" and r: "isDigit r"
    using dec_Cons by blast
  have s: "isSpace 32" by (simp add: isSpace_def)
  from isDigit_not_space [OF r] s show ?thesis
    by (simp add: format_space_def d)
qed

lemma runes_bytes_space: "runes ''bytes '' = runes ''bytes'' @ [32]"
  by (simp add: runes_def)

lemma no_digit_ahead_Cons: "\<not> isDigit r \<Longrightarrow> no_digit_ahead (r # rs)"
  by (simp add: no_digit_ahead_def)

lemma Sscanf_content_range_header:
  assumes a: "0 \<le> a" "a < 2 ^ 63" and b: "0 \<le> b" "b < 2 ^ 63" and t: "0 \<le> t" "t < 2 ^ 63"
    and rest: "no_digit_ahead rest"
  shows "Sscanf (content_range_header a b t @ rest) = (a, b, t, 3, False)"
proof -
  have fa: "fmt_d a = dec (nat a)" and fb: "fmt_d b = dec (nat b)" and ft: "fmt_d t = dec (nat t)"
    using a b t by (simp_all add: fmt_d_def)
  have l1: "literals (runes ''bytes'')
              (content_range_header a b t @ rest) =
            Some (32 # dec (nat a) @ (45 # dec (nat b) @ (47 # dec (nat t) @ rest)))"
    unfolding content_range_header_def runes_bytes_space fa fb ft
    using literals_append [of "runes ''bytes''"] by simp
  have v1: "verb_d (dec (nat a) @ (45 # dec (nat b) @ (47 # dec (nat t) @ rest))) =
            Some (a, 45 # dec (nat b) @ (47 # dec (nat t) @ rest))"
    using verb_d_dec [of "nat a" "45 # dec (nat b) @ (47 # dec (nat t) @ rest)"] a
    by (simp add: no_digit_ahead_def isDigit_def)
  have v2: "verb_d (dec (nat b) @ (47 # dec (nat t) @ rest)) =
            Some (b, 47 # dec (nat t) @ rest)"
    using verb_d_dec [of "nat b" "47 # dec (nat t) @ rest"] b
    by (simp add: no_digit_ahead_def isDigit_def)
  have v3: "verb_d (dec (nat t) @ rest) = Some (t, rest)"
    using verb_d_dec [of "nat t" rest] t rest by simp
  show ?thesis
    unfolding Sscanf_def l1
    by (simp add: format_space_dec v1 v2 v3 literal_def)
qed

lemma parseContentRange_roundtrip:
  assumes "0 \<le> a" "a < 2 ^ 63" "0 \<le> b" "b < 2 ^ 63" "0 \<le> t" "t < 2 ^ 63"
    and "no_digit_ahead rest"
  shows "parseContentRange (Some (content_range_header a b t @ rest)) = (a, b, t, True)"
  by (simp add: parseContentRange_def Sscanf_content_range_header [OF assms])

lemma literal_Some: "literal c inp = Some rs \<Longrightarrow> inp = c # rs"
  by (cases inp) (auto simp add: literal_def split: if_splits)

lemma literals_Some: "literals cs inp = Some rs \<Longrightarrow> inp = cs @ rs"
proof (induction cs arbitrary: inp)
  case Nil
  then show ?case by simp
next
  case (Cons c cs)
  then obtain r1 where l: "literal c inp = Some r1" and r: "literals cs r1 = Some rs"
    by (auto split: option.splits)
  from literal_Some [OF l] Cons.IH [OF r] show ?case by simp
qed

lemma SkipSpace_Some:
  "SkipSpace inp = Some rs \<Longrightarrow> \<exists>sp. inp = sp @ rs \<and> list_all isSpace sp"
proof (induction inp rule: SkipSpace.induct)
  case 1
  then show ?case by simp
next
  case (2 r rs')
  show ?case
  proof (cases "isSpace r")
    case True
    with "2.prems" have rec: "SkipSpace rs' = Some rs"
      by (auto split: if_splits)
    have "\<exists>sp. rs' = sp @ rs \<and> list_all isSpace sp"
    proof (cases "r = 13 \<and> (case rs' of [] \<Rightarrow> False | x # _ \<Rightarrow> x = 10)")
      case True
      with "2.IH"(1) rec show ?thesis by blast
    next
      case False
      with "2.prems" have "r \<noteq> 10" by (auto split: if_splits)
      with False True "2.IH"(2) rec show ?thesis by blast
    qed
    then obtain sp where "rs' = sp @ rs" "list_all isSpace sp" by blast
    with True have "r # rs' = (r # sp) @ rs \<and> list_all isSpace (r # sp)" by simp
    then show ?thesis by blast
  next
    case False
    then have "r \<noteq> 13" "r \<noteq> 10" by (auto simp add: isSpace_def)
    with False "2.prems" have "rs = r # rs'" by simp
    then have "r # rs' = [] @ rs \<and> list_all isSpace []" by simp
    then show ?thesis by blast
  qed
qed

lemma scanInt_Some:
  assumes "scanInt inp = Some (v, rest)"
  shows "\<exists>sp tok. inp = sp @ tok @ rest \<and> list_all isSpace sp \<and> numeral_value tok = Some v"
proof -
  from assms obtain rs where sk: "SkipSpace inp = Some rs"
    by (auto simp add: scanInt_def split: option.splits)
  from SkipSpace_Some [OF sk] obtain sp where sp: "inp = sp @ rs" "list_all isSpace sp"
    by blast
  from assms sk obtain r rs' where rs: "rs = r # rs'"
    by (cases rs) (auto simp add: scanInt_def)
  define rs1 where "rs1 = (if r = 43 \<or> r = 45 then rs' else rs)"
  define tok where "tok = takeWhile isDigit rs1"
  from assms sk rs have ne: "tok \<noteq> []"
    and pi: "ParseInt (r = 45) tok = Some v"
    and rest: "rest = dropWhile isDigit rs1"
    by (auto simp add: scanInt_def Let_def rs1_def tok_def split: if_splits option.splits)
  have split: "rs1 = tok @ rest"
    by (simp add: tok_def rest)
  have digs: "list_all isDigit tok"
    by (simp add: tok_def list_all_iff) (meson set_takeWhileD)
  from pi have val: "v = (if r = 45 then - int (digits_val tok) else int (digits_val tok))"
    and rng: "is_int64 v"
    by (auto simp add: ParseInt_def Let_def is_int64_def split: if_splits)
  show ?thesis
  proof (cases "r = 43 \<or> r = 45")
    case True
    then have "rs = (r # tok) @ rest" using rs split by (simp add: rs1_def)
    moreover from True ne digs val rng have "numeral_value (r # tok) = Some v"
      by (auto simp add: numeral_value_def Let_def)
    ultimately show ?thesis using sp by (metis append.assoc)
  next
    case False
    then have eq: "rs = tok @ rest" using split by (simp add: rs1_def)
    with rs ne obtain tk where tk: "tok = r # tk" by (cases tok) auto
    from False ne digs val rng tk have "numeral_value tok = Some v"
      by (auto simp add: numeral_value_def Let_def)
    with eq sp show ?thesis by blast
  qed
qed

lemma verb_d_Some:
  assumes "verb_d inp = Some (v, rest)"
  shows "\<exists>sp tok. inp = sp @ tok @ rest \<and> list_all isSpace sp \<and> numeral_value tok = Some v"
proof -
  from assms obtain rs where sk: "SkipSpace inp = Some rs" and sc: "scanInt rs = Some (v, rest)"
    by (auto simp add: verb_d_def split: option.splits)
  from SkipSpace_Some [OF sk] obtain sp1 where 1: "inp = sp1 @ rs" "list_all isSpace sp1"
    by blast
  from scanInt_Some [OF sc] obtain sp2 tok
    where 2: "rs = sp2 @ tok @ rest" "list_all isSpace sp2" "numeral_value tok = Some v"
    by blast
  from 1 2 have "inp = (sp1 @ sp2) @ tok @ rest \<and> list_all isSpace (sp1 @ sp2)" by simp
  with 2(3) show ?thesis by blast
qed

lemma format_space_Some:
  assumes "format_space inp = Some rs"
  shows "(inp = [] \<and> rs = []) \<or> (\<exists>sp. sp \<noteq> [] \<and> inp = sp @ rs \<and> list_all isSpace sp)"
proof (cases inp)
  case Nil
  with assms show ?thesis by (simp add: format_space_def)
next
  case (Cons r rs0)
  with assms have r: "isSpace r" and rs: "rs = dropWhile (\<lambda>x. isSpace x \<and> x \<noteq> 10) rs0"
    by (auto simp add: format_space_def split: if_splits)
  define sp where "sp = r # takeWhile (\<lambda>x. isSpace x \<and> x \<noteq> 10) rs0"
  have "inp = sp @ rs" by (simp add: sp_def rs Cons)
  moreover have "list_all isSpace sp"
    using r by (auto simp add: sp_def list_all_iff dest: set_takeWhileD)
  moreover have "sp \<noteq> []" by (simp add: sp_def)
  ultimately show ?thesis by blast
qed

lemma verb_d_Nil: "verb_d [] = None"
  by (simp add: verb_d_def scanInt_def)

lemma Sscanf_ok:
  assumes "Sscanf str = (a, b, c, n, False)"
  shows "n = 3 \<and> (\<exists>sp1 n1 sp2 n2 sp3 n3 rest.
           str = runes ''bytes'' @ sp1 @ n1 @ [45] @ sp2 @ n2 @ [47] @ sp3 @ n3 @ rest \<and>
           sp1 \<noteq> [] \<and> list_all isSpace sp1 \<and> list_all isSpace sp2 \<and> list_all isSpace sp3 \<and>
           numeral_value n1 = Some a \<and> numeral_value n2 = Some b \<and> numeral_value n3 = Some c)"
proof -
  from assms obtain r1 r2 r3 r4 r5 r6 r7
    where l: "literals (runes ''bytes'') str = Some r1"
      and f: "format_space r1 = Some r2"
      and v1: "verb_d r2 = Some (a, r3)"
      and l1: "literal 45 r3 = Some r4"
      and v2: "verb_d r4 = Some (b, r5)"
      and l2: "literal 47 r5 = Some r6"
      and v3: "verb_d r6 = Some (c, r7)"
      and n: "n = 3"
    unfolding Sscanf_def by (auto split: option.splits prod.splits)
  from v1 verb_d_Nil have "r2 \<noteq> []" by auto
  with format_space_Some [OF f] obtain sp0
    where sp0: "sp0 \<noteq> []" "r1 = sp0 @ r2" "list_all isSpace sp0" by blast
  from verb_d_Some [OF v1] obtain s1 n1
    where 1: "r2 = s1 @ n1 @ r3" "list_all isSpace s1" "numeral_value n1 = Some a" by blast
  from verb_d_Some [OF v2] obtain s2 n2
    where 2: "r4 = s2 @ n2 @ r5" "list_all isSpace s2" "numeral_value n2 = Some b" by blast
  from verb_d_Some [OF v3] obtain s3 n3
    where 3: "r6 = s3 @ n3 @ r7" "list_all isSpace s3" "numeral_value n3 = Some c" by blast
  have "str = runes ''bytes'' @ (sp0 @ s1) @ n1 @ [45] @ s2 @ n2 @ [47] @ s3 @ n3 @ r7"
    using literals_Some [OF l] sp0(2) 1(1) literal_Some [OF l1] 2(1) literal_Some [OF l2] 3(1)
    by simp
  moreover have "sp0 @ s1 \<noteq> []" "list_all isSpace (sp0 @ s1)"
    using sp0 1(2) by simp_all
  ultimately show ?thesis using n 1(3) 2 3 by blast
qed

lemma Sscanf_n_failed: "Sscanf str = (a, b, c, n, failed) \<Longrightarrow> failed = (n \<noteq> 3)"
  unfolding Sscanf_def by (auto split: option.splits prod.splits)

text \<open>
  Claim C7, amended. For \<^verbatim>\<open>int64\<close> values \<open>0 \<le> start \<le> end < total\<close>, parsing the
  string \<^verbatim>\<open>bytes start-end/total\<close> returns exactly \<open>(start, end, total)\<close> with
  \<open>ok = true\<close>, and so it does when any text that does not begin with a digit follows
  the total. A nil string gives \<open>ok = false\<close>. And \<open>ok = true\<close> is reported only for
  a string made of \<^verbatim>\<open>bytes\<close>, at least one space, a numeral, \<^verbatim>\<open>-\<close>, a numeral,
  \<^verbatim>\<open>/\<close>, a numeral (each numeral decimal, optionally signed and after optional
  spaces) and any text after it, and then the three values returned are the values of
  these numerals: a missing prefix, dash or slash, a non-numeric field or fewer than
  three numbers give \<open>ok = false\<close>.
\<close>

theorem parseContentRange_round_trip_and_failures:
  "(0 \<le> start \<and> start \<le> end' \<and> end' < tot \<and> tot < 2 ^ 63 \<and> no_digit_ahead rest \<longrightarrow>
      parseContentRange (Some (content_range_header start end' tot @ rest)) =
        (start, end', tot, True)) \<and>
   snd (snd (snd (parseContentRange None))) = False \<and>
   (parseContentRange s = (a, b, c, True) \<longrightarrow>
      (\<exists>sp1 n1 sp2 n2 sp3 n3 rest'.
          s = Some (runes ''bytes'' @ sp1 @ n1 @ [45] @ sp2 @ n2 @ [47] @ sp3 @ n3 @ rest') \<and>
          sp1 \<noteq> [] \<and> list_all isSpace sp1 \<and> list_all isSpace sp2 \<and> list_all isSpace sp3 \<and>
          numeral_value n1 = Some a \<and> numeral_value n2 = Some b \<and> numeral_value n3 = Some c))"
proof (intro conjI impI)
  assume h: "0 \<le> start \<and> start \<le> end' \<and> end' < tot \<and> tot < 2 ^ 63 \<and> no_digit_ahead rest"
  then show "parseContentRange (Some (content_range_header start end' tot @ rest)) =
        (start, end', tot, True)"
    by (intro parseContentRange_roundtrip) simp_all
next
  show "snd (snd (snd (parseContentRange None))) = False"
    by (simp add: parseContentRange_def)
next
  assume ok: "parseContentRange s = (a, b, c, True)"
  then obtain str where s: "s = Some str"
    by (cases s) (simp_all add: parseContentRange_def)
  obtain a' b' c' n failed where sc: "Sscanf str = (a', b', c', n, failed)"
    by (metis prod_cases5)
  with ok s have "\<not> failed" and abc: "a' = a" "b' = b" "c' = c"
    by (auto simp add: parseContentRange_def split: if_splits)
  with sc have "Sscanf str = (a, b, c, n, False)" by simp
  from Sscanf_ok [OF this] s
  show "\<exists>sp1 n1 sp2 n2 sp3 n3 rest'.
          s = Some (runes ''bytes'' @ sp1 @ n1 @ [45] @ sp2 @ n2 @ [47] @ sp3 @ n3 @ rest') \<and>
          sp1 \<noteq> [] \<and> list_all isSpace sp1 \<and> list_all isSpace sp2 \<and> list_all isSpace sp3 \<and>
          numeral_value n1 = Some a \<and> numeral_value n2 = Some b \<and> numeral_value n3 = Some c"
    by blast
qed

lemma parse_sample_header:
  "parseContentRange (Some (runes ''bytes 0-5/10'')) = (0, 5, 10, True)"
  by (simp add: parseContentRange_def Sscanf_def runes_def literal_def format_space_def
      isSpace_def verb_d_def scanInt_def isDigit_def ParseInt_def digits_val_def)

theorem parseContentRange_round_trip_and_failures_witness:
  "parseContentRange (Some (runes ''bytes 0-5/10; more'')) = (0, 5, 10, True) \<and>
   (\<exists>sp1 n1 sp2 n2 sp3 n3 rest'.
      Some (runes ''bytes 0-5/10'') =
        Some (runes ''bytes'' @ sp1 @ n1 @ [45] @ sp2 @ n2 @ [47] @ sp3 @ n3 @ rest') \<and>
      sp1 \<noteq> [] \<and> list_all isSpace sp1 \<and> list_all isSpace sp2 \<and> list_all isSpace sp3 \<and>
      numeral_value n1 = Some 0 \<and> numeral_value n2 = Some 5 \<and> numeral_value n3 = Some 10)"
proof -
  have h: "content_range_header 0 5 10 @ runes ''; more'' = runes ''bytes 0-5/10; more''"
    by (simp add: content_range_header_def fmt_d_def dec.simps runes_def)
  have n: "no_digit_ahead (runes ''; more'')"
    by (simp add: no_digit_ahead_def runes_def isDigit_def)
  from parseContentRange_round_trip_and_failures
    [of 0 5 10 "runes ''; more''" "Some (runes ''bytes 0-5/10'')" 0 5 10]
    h n parse_sample_header
  show ?thesis by simp
qed

text \<open>
  The claim as it stands fails: a string with a fourth number after a second slash, and
  one whose last field goes on with letters, are both reported with \<open>ok = true\<close>.
\<close>

theorem parseContentRange_accepts_trailing_text:
  "parseContentRange (Some (runes ''bytes 0-5/10/20'')) = (0, 5, 10, True) \<and>
   parseContentRange (Some (runes ''bytes 0-5/10abc'')) = (0, 5, 10, True)"
  by (simp add: parseContentRange_def Sscanf_def runes_def literal_def format_space_def
      isSpace_def verb_d_def scanInt_def isDigit_def ParseInt_def digits_val_def)

subsection \<open>Reading from the in-memory store\<close>

lemma no_digit_ahead_Nil: "no_digit_ahead []"
  by (simp add: no_digit_ahead_def)

lemma parse_header_of_store:
  assumes "0 \<le> a" "a < 2 ^ 63" "0 \<le> b" "b < 2 ^ 63" "0 \<le> t" "t < 2 ^ 63"
  shows "parseContentRange (Some (content_range_header a b t)) = (a, b, t, True)"
  using parseContentRange_roundtrip [OF assms no_digit_ahead_Nil] by simp

lemma store_ranged:
  assumes "st key = Some (C, t)" "0 \<le> d" "d < int (length C)" "d \<le> e"
  shows "store_getObject st key d e =
     (Inr \<lparr>body = \<lparr>payload = take (nat (min e (int (length C) - 1) - d + 1)) (drop (nat d) C),
                     fault = None\<rparr>,
           contentLength = min e (int (length C) - 1) - d + 1,
           contentRange = Some (content_range_header d (min e (int (length C) - 1)) (int (length C))),
           lastModified = t\<rparr>, st)"
  using assms by (simp add: store_getObject_def Let_def)

lemma store_whole:
  assumes "st key = Some (C, t)"
  shows "store_getObject st key (- 1) 0 =
     (Inr \<lparr>body = \<lparr>payload = C, fault = None\<rparr>, contentLength = int (length C),
           contentRange = None, lastModified = t\<rparr>, st)"
  using assms by (simp add: store_getObject_def)

lemma store_empty_ranged:
  assumes "st key = Some ([], t)" "0 \<le> e"
  shows "store_getObject st key 0 e = (Inl RangeNotSatisfiable, st)"
  using assms by (simp add: store_getObject_def)

lemma parsePartialResponse_ok:
  assumes "0 \<le> d" "d \<le> l" "l < L" "L < 2 ^ 62"
  shows "parsePartialResponse
           \<lparr>body = \<lparr>payload = p, fault = None\<rparr>, contentLength = n,
            contentRange = Some (content_range_header d l L), lastModified = t\<rparr> obj =
         (None, obj\<lparr>modTime := t, buf := buf obj @ p, size' := L, dlOffset := l + 1,
                    completelyLoaded := (l = L - 1)\<rparr>)"
proof -
  have p: "parseContentRange (Some (content_range_header d l L)) = (d, l, L, True)"
    using assms by (intro parse_header_of_store) simp_all
  have w1: "wrap64 (l + 1) = l + 1" and w2: "wrap64 (L - 1) = L - 1"
    using assms by (simp_all add: wrap64_id is_int64_def)
  show ?thesis
    by (simp add: parsePartialResponse_def io_Copy_def p w1 w2)
qed

lemma take_prefix_extend:
  assumes "prefix b C" "int (length b) = d" "0 \<le> k"
  shows "b @ take (nat k) (drop (nat d) C) = take (nat (d + k)) C"
proof -
  from assms(1) have b: "b = take (length b) C"
    by (metis append_eq_conv_conj prefix_def)
  have "take (length b + nat k) C = take (length b) C @ take (nat k) (drop (length b) C)"
    by (simp add: take_add)
  moreover have "nat (d + k) = length b + nat k" using assms by (simp add: nat_add_distrib)
  moreover have "nat d = length b" using assms by simp
  ultimately show ?thesis using b by simp
qed

text \<open>One ranged fetch on a handle that holds a proper prefix of the object.\<close>

lemma fillChunk_partial:
  assumes st: "st key = Some (C, t)"
    and c: "1 \<le> c" "c < 2 ^ 63" and L: "int (length C) < 2 ^ 62"
    and o: "bufLen obj = c" "name obj = key" "dlOffset obj = int (length (buf obj))"
           "prefix (buf obj) C" "buf obj \<noteq> C" "buf obj = [] \<or> c \<le> dlOffset obj"
           "0 \<le> rOffset obj"
    and f: "full \<longrightarrow> size' obj = int (length C)"
  shows "\<exists>obj'. fillChunk store_getObject full (obj, st) = (None, obj', st) \<and>
           reader_inv C t c key obj' \<and> rOffset obj' = rOffset obj \<and>
           length (buf obj) < length (buf obj') \<and> (full \<longrightarrow> buf obj' = C)"
proof -
  define d where "d = dlOffset obj"
  define Ln where "Ln = int (length C)"
  define e where "e = (if full then Ln - 1 else d + c - 1)"
  define l where "l = min e (Ln - 1)"
  from o(4,5) have lt: "length (buf obj) < length C"
    by (auto simp add: prefix_def)
  then have dL: "d < Ln" and d0: "0 \<le> d" using o(3) by (simp_all add: d_def Ln_def)
  have cb: "c \<le> d \<or> d = 0" using o(6,3) by (auto simp add: d_def)
  have e_eq: "(if full then wrap64 (size' obj - 1) else wrap64 (dlOffset obj + bufLen obj - 1)) = e"
  proof (cases full)
    case True
    with f L show ?thesis by (simp add: e_def Ln_def wrap64_id is_int64_def)
  next
    case False
    have "is_int64 (d + c - 1)" using cb c d0 dL L by (auto simp add: is_int64_def Ln_def)
    with False show ?thesis by (simp add: e_def d_def o(1) wrap64_id)
  qed
  have de: "d \<le> e" using c dL by (auto simp add: e_def)
  have dl': "d \<le> l" "l < Ln" using de dL by (auto simp add: l_def)
  have rsp: "store_getObject st key d e =
     (Inr \<lparr>body = \<lparr>payload = take (nat (l - d + 1)) (drop (nat d) C), fault = None\<rparr>,
           contentLength = l - d + 1,
           contentRange = Some (content_range_header d l Ln),
           lastModified = t\<rparr>, st)"
    using store_ranged [of st key C t d e] st d0 de dL by (simp add: l_def Ln_def)
  define obj' where "obj' = obj\<lparr>modTime := t, buf := buf obj @ take (nat (l - d + 1)) (drop (nat d) C),
                    size' := Ln, dlOffset := l + 1, completelyLoaded := (l = Ln - 1)\<rparr>"
  have pp: "parsePartialResponse
           \<lparr>body = \<lparr>payload = take (nat (l - d + 1)) (drop (nat d) C), fault = None\<rparr>,
            contentLength = l - d + 1,
            contentRange = Some (content_range_header d l Ln), lastModified = t\<rparr> obj =
         (None, obj')"
    unfolding obj'_def using d0 dl' L by (intro parsePartialResponse_ok) (simp_all add: Ln_def)
  have c0: "bufLen obj \<noteq> 0" using o(1) c by simp
  have fc: "fillChunk store_getObject full (obj, st) = (None, obj', st)"
    unfolding fillChunk_def using c0 e_eq rsp pp by (simp add: Let_def d_def o(2))
  have nb: "buf obj' = take (nat (l + 1)) C"
    using take_prefix_extend [OF o(4), of d "l - d + 1"] o(3) dl'
    by (simp add: obj'_def d_def)
  have len: "int (length (buf obj')) = l + 1"
    using nb dl' d0 by (simp add: Ln_def)
  have comp: "(l = Ln - 1) = (buf obj' = C)"
  proof
    assume "l = Ln - 1"
    then show "buf obj' = C" using nb by (simp add: Ln_def)
  next
    assume "buf obj' = C"
    with len show "l = Ln - 1" by (simp add: Ln_def)
  qed
  have cd: "l = Ln - 1 \<or> c \<le> l + 1"
    using cb d0 dl' by (auto simp add: l_def e_def split: if_splits)
  have fields: "bufLen obj' = c" "name obj' = key" "size' obj' = Ln" "modTime obj' = t"
    "dlOffset obj' = l + 1" "completelyLoaded obj' = (l = Ln - 1)" "rOffset obj' = rOffset obj"
    by (simp_all add: obj'_def o)
  have pre: "prefix (buf obj') C" using nb by (simp add: take_is_prefix)
  have inv: "reader_inv C t c key obj'"
    unfolding reader_inv_def fields
    using len pre comp cd o(7) by (simp add: Ln_def)
  have gr: "length (buf obj) < length (buf obj')"
    using len o(3) dl' by (simp add: d_def)
  have fu: "full \<longrightarrow> buf obj' = C"
    using comp dL by (auto simp add: l_def e_def)
  from fc inv gr fu fields(7) show ?thesis by blast
qed

lemma Open_inv:
  assumes st: "st key = Some (C, t)"
    and c: "1 \<le> c" "c < 2 ^ 63" and L: "int (length C) < 2 ^ 62"
  shows "\<exists>obj. OpenWithContext store_getObject c key st = (None, obj, st) \<and>
           reader_inv C t c key obj \<and> rOffset obj = 0"
proof (cases "C = []")
  case True
  have w: "wrap64 (c - 1) = c - 1" using c by (simp add: wrap64_id is_int64_def)
  have r1: "store_getObject st key 0 (c - 1) = (Inl RangeNotSatisfiable, st)"
    using store_empty_ranged [of st key t "c - 1"] st True c by simp
  have r2: "store_getObject st key (- 1) 0 =
     (Inr \<lparr>body = \<lparr>payload = [], fault = None\<rparr>, contentLength = 0,
           contentRange = None, lastModified = t\<rparr>, st)"
    using store_whole [of st key C t] st True by simp
  define obj where "obj = (new_object c key)\<lparr>modTime := t, buf := [], size' := 0,
      completelyLoaded := True\<rparr>"
  have d: "dl store_getObject (new_object c key, st) = (None, obj, st)"
    by (simp add: dl_def new_object_def r2 parseFullResponse_def IsZero_def io_Copy_def obj_def)
  have "fillChunk store_getObject False (new_object c key, st) = (None, obj, st)"
    unfolding fillChunk_def using c d
    by (simp add: new_object_def w r1 Let_def)
  moreover have "reader_inv C t c key obj"
    using True by (simp add: reader_inv_def obj_def new_object_def)
  moreover have "rOffset obj = 0" by (simp add: obj_def new_object_def)
  ultimately show ?thesis by (simp add: OpenWithContext_def)
next
  case False
  have "\<exists>obj'. fillChunk store_getObject False (new_object c key, st) = (None, obj', st) \<and>
           reader_inv C t c key obj' \<and> rOffset obj' = rOffset (new_object c key) \<and>
           length (buf (new_object c key)) < length (buf obj') \<and> (False \<longrightarrow> buf obj' = C)"
    using False fillChunk_partial [of st key C t c "new_object c key" False] st c L
    by (simp add: new_object_def)
  then show ?thesis by (auto simp add: OpenWithContext_def new_object_def)
qed

lemma prefix_take_drop:
  assumes "prefix b C"
  shows "take n (drop r b) = take (length (take n (drop r b))) (drop r C)"
proof -
  from assms obtain zs where "C = b @ zs" by (auto simp add: prefix_def)
  then show ?thesis by (simp add: min_def)
qed

lemma Read_inv:
  assumes st: "st key = Some (C, t)"
    and c: "1 \<le> c" "c < 2 ^ 63" and L: "int (length C) < 2 ^ 62"
    and inv: "reader_inv C t c key obj"
  shows "(int (length C) \<le> rOffset obj \<and> Read store_getObject n (obj, st) = (Inl EOF, obj, st)) \<or>
         (rOffset obj < int (length C) \<and>
          (\<exists>bs obj'. Read store_getObject n (obj, st) = (Inr bs, obj', st) \<and>
             reader_inv C t c key obj' \<and> rOffset obj' = rOffset obj + int (length bs) \<and>
             bs = take (length bs) (drop (nat (rOffset obj)) C) \<and> (1 \<le> n \<longrightarrow> bs \<noteq> [])))"
proof (cases "int (length C) \<le> rOffset obj")
  case True
  with inv have "size' obj \<le> rOffset obj" by (simp add: reader_inv_def)
  from Read_EOF [OF this] True show ?thesis by simp
next
  case False
  then have rl: "rOffset obj < int (length C)" by simp
  from inv have r0: "0 \<le> rOffset obj" and sz: "size' obj = int (length C)"
    by (simp_all add: reader_inv_def)
  have "\<exists>obj1. (if \<not> completelyLoaded obj then
                   (if rOffset obj > dlOffset obj then fillChunk store_getObject True (obj, st)
                    else if int (length (buf obj)) - rOffset obj < int n
                         then fillChunk store_getObject False (obj, st)
                    else (None, obj, st))
                 else (None, obj, st)) = (None, obj1, st) \<and>
          reader_inv C t c key obj1 \<and> rOffset obj1 = rOffset obj \<and>
          rOffset obj \<le> int (length (buf obj1)) \<and>
          (1 \<le> n \<longrightarrow> rOffset obj < int (length (buf obj1)))"
  proof (cases "completelyLoaded obj")
    case True
    with inv rl show ?thesis by (auto simp add: reader_inv_def)
  next
    case nc: False
    with inv have pre: "bufLen obj = c" "name obj = key" "dlOffset obj = int (length (buf obj))"
      "prefix (buf obj) C" "buf obj \<noteq> C" "buf obj = [] \<or> c \<le> dlOffset obj"
      by (simp_all add: reader_inv_def)
    show ?thesis
    proof (cases "rOffset obj > dlOffset obj")
      case True
      from fillChunk_partial [of st key C t c obj True] st c L pre r0 sz
      obtain obj' where "fillChunk store_getObject True (obj, st) = (None, obj', st)"
        "reader_inv C t c key obj'" "rOffset obj' = rOffset obj" "buf obj' = C"
        by auto
      with nc True rl show ?thesis by auto
    next
      case le: False
      show ?thesis
      proof (cases "int (length (buf obj)) - rOffset obj < int n")
        case True
        from fillChunk_partial [of st key C t c obj False] st c L pre r0
        obtain obj' where "fillChunk store_getObject False (obj, st) = (None, obj', st)"
          "reader_inv C t c key obj'" "rOffset obj' = rOffset obj"
          "length (buf obj) < length (buf obj')"
          by auto
        with nc le True pre(3) show ?thesis by auto
      next
        case False
        with nc le inv pre(3) show ?thesis by auto
      qed
    qed
  qed
  then obtain obj1 where
    dec: "(if \<not> completelyLoaded obj then
                   (if rOffset obj > dlOffset obj then fillChunk store_getObject True (obj, st)
                    else if int (length (buf obj)) - rOffset obj < int n
                         then fillChunk store_getObject False (obj, st)
                    else (None, obj, st))
                 else (None, obj, st)) = (None, obj1, st)"
    and inv1: "reader_inv C t c key obj1" and r1: "rOffset obj1 = rOffset obj"
    and b1: "rOffset obj \<le> int (length (buf obj1))"
    and b2: "1 \<le> n \<longrightarrow> rOffset obj < int (length (buf obj1))"
    by blast
  define bs where "bs = take n (drop (nat (rOffset obj)) (buf obj1))"
  define obj' where "obj' = obj1\<lparr>rOffset := rOffset obj + int (length bs)\<rparr>"
  have nlt: "\<not> size' obj \<le> rOffset obj" using sz rl by simp
  have rd: "Read store_getObject n (obj, st) = (Inr bs, obj', st)"
    unfolding Read_def using nlt r0 b1
    by (simp add: dec r1 Let_def bs_def obj'_def)
  from inv1 have p1: "prefix (buf obj1) C" by (simp add: reader_inv_def)
  have v: "bs = take (length bs) (drop (nat (rOffset obj)) C)"
    unfolding bs_def by (rule prefix_take_drop [OF p1])
  have ne: "1 \<le> n \<longrightarrow> bs \<noteq> []"
    using b2 r0 by (auto simp add: bs_def)
  have inv': "reader_inv C t c key obj'"
    using inv1 r0 by (auto simp add: reader_inv_def obj'_def)
  have "rOffset obj' = rOffset obj + int (length bs)" by (simp add: obj'_def)
  with rd inv' v ne rl show ?thesis by blast
qed





lemma read_until_eof_inv:
  assumes st: "st key = Some (C, t)"
    and c: "1 \<le> c" "c < 2 ^ 63" and L: "int (length C) < 2 ^ 62"
  shows "\<forall>n\<in>set ns. 1 \<le> n \<Longrightarrow> reader_inv C t c key obj \<Longrightarrow>
     nat (int (length C) - rOffset obj) < length ns \<Longrightarrow>
     read_until_eof store_getObject ns (obj, st) acc =
       Some (Inr (acc @ drop (nat (rOffset obj)) C))"
proof (induction ns arbitrary: obj acc)
  case Nil
  then show ?case by simp
next
  case (Cons n ns)
  from Cons.prems(1) have n1: "1 \<le> n" and ns1: "\<forall>n\<in>set ns. 1 \<le> n" by simp_all
  from Read_inv [of st key C t c obj n] st c L Cons.prems(2)
  consider (eof) "int (length C) \<le> rOffset obj"
      "Read store_getObject n (obj, st) = (Inl EOF, obj, st)"
    | (bytes) bs obj' where "rOffset obj < int (length C)"
      "Read store_getObject n (obj, st) = (Inr bs, obj', st)"
      "reader_inv C t c key obj'" "rOffset obj' = rOffset obj + int (length bs)"
      "bs = take (length bs) (drop (nat (rOffset obj)) C)" "1 \<le> n \<longrightarrow> bs \<noteq> []"
    by blast
  then show ?case
  proof cases
    case eof
    then show ?thesis by simp
  next
    case bytes
    from bytes(6) n1 have ne: "0 < length bs" by simp
    from Cons.prems(2) have r0: "0 \<le> rOffset obj" by (simp add: reader_inv_def)
    from ne have k1: "1 \<le> int (length bs)" by (cases bs) simp_all
    have "nat (int (length C) - rOffset obj') < nat (int (length C) - rOffset obj)"
      using bytes(1,4) k1 by arith
    moreover from Cons.prems(3)
    have "nat (int (length C) - rOffset obj) < Suc (length ns)" by simp
    ultimately have m: "nat (int (length C) - rOffset obj') < length ns"
      by arith
    from Cons.IH [OF ns1 bytes(3) m, of "acc @ bs"]
    have "read_until_eof store_getObject ns (obj', st) (acc @ bs) =
       Some (Inr ((acc @ bs) @ drop (nat (rOffset obj')) C))" .
    moreover have "drop (nat (rOffset obj)) C = bs @ drop (nat (rOffset obj')) C"
    proof -
      have "drop (nat (rOffset obj)) C =
          take (length bs) (drop (nat (rOffset obj)) C) @
          drop (length bs) (drop (nat (rOffset obj)) C)"
        by (rule append_take_drop_id [symmetric])
      also have "drop (length bs) (drop (nat (rOffset obj)) C) = drop (nat (rOffset obj')) C"
        using r0 bytes(4) by (simp add: nat_add_distrib add.commute)
      finally show ?thesis using bytes(5) by simp
    qed
    ultimately show ?thesis using bytes(2) by simp
  qed
qed

lemma ReadFile_store:
  assumes st: "st key = Some (C, t)"
  shows "ReadFileWithContext store_getObject c key st = (Inr C, st)"
  using store_whole [of st key C t] st
  by (simp add: ReadFileWithContext_def dl_def new_object_def parseFullResponse_def IsZero_def
      io_Copy_def)

text \<open>
  Claim C3. For every object content \<open>C\<close> and every chunk size \<open>c \<ge> 1\<close> (an
  \<^verbatim>\<open>int64\<close>; the content shorter than \<open>2^62\<close> bytes), opening the object succeeds, and
  calling \<^verbatim>\<open>Read\<close> again and again with non-empty slices of any lengths reaches
  end-of-stream after at most \<open>length C + 1\<close> calls, having returned, in concatenation,
  exactly \<open>C\<close>: the bytes that the single whole-object fetch of \<^verbatim>\<open>ReadFile\<close> returns.
\<close>

theorem sequential_read_equivalence:
  "st key = Some (C, t) \<Longrightarrow> 1 \<le> c \<Longrightarrow> c < 2 ^ 63 \<Longrightarrow> int (length C) < 2 ^ 62 \<Longrightarrow>
   \<forall>n\<in>set ns. 1 \<le> n \<Longrightarrow> length C < length ns \<Longrightarrow>
   \<exists>obj. OpenWithContext store_getObject c key st = (None, obj, st) \<and>
         read_until_eof store_getObject ns (obj, st) [] = Some (Inr C) \<and>
         ReadFileWithContext store_getObject c key st = (Inr C, st)"
proof -
  assume st: "st key = Some (C, t)" and c: "1 \<le> c" "c < 2 ^ 63"
    and L: "int (length C) < 2 ^ 62" and ns: "\<forall>n\<in>set ns. 1 \<le> n" "length C < length ns"
  from Open_inv [of st key C t c] st c L
  obtain obj where o: "OpenWithContext store_getObject c key st = (None, obj, st)"
    and inv: "reader_inv C t c key obj" and r: "rOffset obj = 0"
    by blast
  have "read_until_eof store_getObject ns (obj, st) [] =
       Some (Inr ([] @ drop (nat (rOffset obj)) C))"
    using ns(2) r by (intro read_until_eof_inv [of st key C t c ns obj] st c L ns(1) inv) simp
  with r have "read_until_eof store_getObject ns (obj, st) [] = Some (Inr C)" by simp
  with o ReadFile_store [of st key C t c] st show ?thesis by blast
qed

theorem sequential_read_equivalence_witness:
  "\<exists>obj. OpenWithContext store_getObject 5 ''k'' sample_store = (None, obj, sample_store) \<and>
         read_until_eof store_getObject (replicate 13 3) (obj, sample_store) [] =
           Some (Inr ''hello, world'') \<and>
         ReadFileWithContext store_getObject 5 ''k'' sample_store =
           (Inr ''hello, world'', sample_store)"
  using sequential_read_equivalence
    [of sample_store "''k''" "''hello, world''" 7 5 "replicate 13 3"]
  by (simp add: sample_store_def)

subsection \<open>The download offset\<close>



subsection \<open>Failed fetches\<close>

lemma frame_kept_refl: "frame_kept obj obj"
  by (simp add: frame_kept_def)

lemma parseFullResponse_frame:
  assumes "parseFullResponse rsp obj = (Some e, obj')"
  shows "frame_kept obj obj' \<and> (refused_before_draining e \<longrightarrow> obj' = obj)"
proof (cases "\<not> IsZero (modTime obj) \<and> modTime obj \<noteq> lastModified rsp")
  case True
  with assms show ?thesis
    by (simp add: parseFullResponse_def frame_kept_refl)
next
  case False
  with assms show ?thesis
    by (auto simp add: parseFullResponse_def io_Copy_def frame_kept_def Let_def
        refused_before_draining_def split: option.splits)
qed

lemma parsePartialResponse_frame:
  assumes "parsePartialResponse rsp obj = (Some e, obj')"
  shows "frame_kept obj obj' \<and> \<not> refused_before_draining e"
  using assms
  by (auto simp add: parsePartialResponse_def io_Copy_def frame_kept_def Let_def
      refused_before_draining_def split: option.splits prod.splits if_splits)

lemma dl_frame:
  assumes "dl cl (obj, w) = (Some e, obj', w')"
  shows "frame_kept obj obj' \<and> (refused_before_draining e \<longrightarrow> obj' = obj)"
proof (cases "cl w (name obj) (- 1) 0")
  case (Pair r w1)
  show ?thesis
  proof (cases r)
    case (Inl ce)
    with Pair assms show ?thesis by (simp add: dl_def frame_kept_refl)
  next
    case (Inr rsp)
    with Pair assms have "parseFullResponse rsp obj = (Some e, obj')"
      by (simp add: dl_def split: prod.splits)
    then show ?thesis by (rule parseFullResponse_frame)
  qed
qed

lemma fillChunk_frame:
  assumes "fillChunk cl full (obj, w) = (Some e, obj', w')"
  shows "frame_kept obj obj' \<and> (refused_before_draining e \<longrightarrow> obj' = obj)"
proof (cases "bufLen obj = 0")
  case True
  with assms have "dl cl (obj, w) = (Some e, obj', w')" by (simp add: fillChunk_def)
  then show ?thesis by (rule dl_frame)
next
  case False
  define end' where "end' = (if full then wrap64 (size' obj - 1)
                       else wrap64 (dlOffset obj + bufLen obj - 1))"
  obtain r w1 where c: "cl w (name obj) (dlOffset obj) end' = (r, w1)"
    by (cases "cl w (name obj) (dlOffset obj) end'")
  show ?thesis
  proof (cases r)
    case (Inl ce)
    show ?thesis
    proof (cases "dlOffset obj = 0")
      case True
      with assms False c Inl have "dl cl (obj, w1) = (Some e, obj', w')"
        by (simp add: fillChunk_def Let_def end'_def)
      then show ?thesis by (rule dl_frame)
    next
      case nz: False
      with assms False c Inl show ?thesis
        by (simp add: fillChunk_def Let_def end'_def frame_kept_refl)
    qed
  next
    case (Inr rsp)
    with assms False c have "parsePartialResponse rsp obj = (Some e, obj')"
      by (simp add: fillChunk_def Let_def end'_def split: prod.splits)
    from parsePartialResponse_frame [OF this] show ?thesis by simp
  qed
qed

lemmas eval_fetch = fillChunk_def dl_def parsePartialResponse_def parseFullResponse_def
  io_Copy_def IsZero_def Let_def scripted_def chunk_def logged_def new_object_def
  sample_object_def wrap64_def
lemmas eval_parse = parseContentRange_def Sscanf_def runes_def literal_def format_space_def
  isSpace_def verb_d_def scanInt_def isDigit_def ParseInt_def digits_val_def
lemmas eval_store = store_getObject_def sample_store_def content_range_header_def fmt_d_def
  dec.simps

text \<open>
  Claim C2, amended. A fetch attempt that fails (\<^verbatim>\<open>fillChunk\<close>, or the whole-object
  \<^verbatim>\<open>dl\<close>) leaves the download offset, the read offset, the size, the completion flag,
  the chunk size and the name as they were, and the old buffer is a prefix of the new
  one. When the failure is an error returned by the store client, or the last-modified
  check of a whole-object response, the handle is exactly as it was. When the body fails
  while it is drained, or the content-range of a ranged response is absent or malformed,
  the bytes drained so far stay appended to the buffer and the modification time may
  have been overwritten.
\<close>

theorem failed_fetch_keeps_cursors:
  "(fillChunk cl full (obj, w) = (Some e, obj', w') \<longrightarrow>
      frame_kept obj obj' \<and> (refused_before_draining e \<longrightarrow> obj' = obj)) \<and>
   (dl cl (obj, w) = (Some e, obj', w') \<longrightarrow>
      frame_kept obj obj' \<and> (refused_before_draining e \<longrightarrow> obj' = obj))"
  using fillChunk_frame [of cl full obj w e obj' w'] dl_frame [of cl obj w e obj' w']
  by blast

theorem failed_fetch_keeps_cursors_witness:
  "frame_kept sample_object (sample_object\<lparr>modTime := 9, buf := ''he''\<rparr>) \<and>
   fillChunk store_getObject False (sample_object\<lparr>name := ''zz''\<rparr>, sample_store) =
     (Some (ClientError NoSuchKey), sample_object\<lparr>name := ''zz''\<rparr>, sample_store) \<and>
   dl scripted (sample_object, [Inr (chunk ''hello, world'' None None 9)]) =
     (Some (LastModifiedChanged 7 9), sample_object, [])"
proof -
  have a: "fillChunk scripted False (sample_object, [Inr (chunk ''e'' None None 9)]) =
     (Some (ParseContentRangeError None), sample_object\<lparr>modTime := 9, buf := ''he''\<rparr>, [])"
    by (simp add: eval_fetch parseContentRange_def)
  have b: "fillChunk store_getObject False (sample_object\<lparr>name := ''zz''\<rparr>, sample_store) =
     (Some (ClientError NoSuchKey), sample_object\<lparr>name := ''zz''\<rparr>, sample_store)"
    by (simp add: eval_fetch eval_store)
  have c: "dl scripted (sample_object, [Inr (chunk ''hello, world'' None None 9)]) =
     (Some (LastModifiedChanged 7 9), sample_object, [])"
    by (simp add: eval_fetch)
  from failed_fetch_keeps_cursors
    [of scripted False sample_object "[Inr (chunk ''e'' None None 9)]"
      "ParseContentRangeError None" "sample_object\<lparr>modTime := 9, buf := ''he''\<rparr>" "[]"] a
  have "frame_kept sample_object (sample_object\<lparr>modTime := 9, buf := ''he''\<rparr>)" by simp
  with b c show ?thesis by simp
qed

text \<open>
  The claim as it stands fails: after a ranged response without content-range, and after
  one whose body breaks off, the buffer has grown from \<open>h\<close> to \<open>he\<close> and the
  modification time has changed from 7 to 9.
\<close>

theorem failed_fetch_changes_buffer:
  "fillChunk scripted False (sample_object, [Inr (chunk ''e'' None None 9)]) =
     (Some (ParseContentRangeError None), sample_object\<lparr>modTime := 9, buf := ''he''\<rparr>, []) \<and>
   fillChunk scripted False
       (sample_object, [Inr (chunk ''e'' (Some ConnectionReset) (Some (runes ''bytes 1-2/12'')) 9)]) =
     (Some (CopyError ConnectionReset), sample_object\<lparr>modTime := 9, buf := ''he''\<rparr>, []) \<and>
   buf sample_object = ''h'' \<and> modTime sample_object = 7"
  by (simp add: eval_fetch parseContentRange_def)

subsection \<open>The consistency guard\<close>

text \<open>
  Claim C1, at a failing input. A handle that recorded the last-modified time 7 on its
  first fetch receives a ranged response with time 8: \<^verbatim>\<open>parsePartialResponse\<close> succeeds,
  appends the body to the buffer and overwrites the recorded time, where the claim asks
  for a consistency error and an untouched buffer. \<^verbatim>\<open>parseFullResponse\<close>, on the same
  handle and time, does fail with that error.
\<close>

theorem partial_fetch_merges_changed_object:
  "parsePartialResponse (chunk ''e'' None (Some (runes ''bytes 1-1/12'')) 8) sample_object =
     (None, sample_object\<lparr>modTime := 8, buf := ''he'', size' := 12, dlOffset := 2,
                          completelyLoaded := False\<rparr>) \<and>
   modTime sample_object = 7 \<and>
   parseFullResponse (chunk ''hello, world'' None None 8) sample_object =
     (Some (LastModifiedChanged 7 8), sample_object)"
  by (simp add: eval_fetch eval_parse)

subsection \<open>The whole-object fallback\<close>

text \<open>
  Claim C4, at a failing input. The first ranged fetch (download offset 0, chunk size 1)
  of a missing key fails with not-found, and \<^verbatim>\<open>fillChunk\<close> sends a second, whole-object
  request before it returns the error; when the first request fails with a transport
  error and the second succeeds, the error is not returned at all. The claim asks for
  the fallback on range-not-satisfiable only.
\<close>

theorem fallback_on_any_first_error:
  "fillChunk (logged store_getObject) False (new_object 1 ''zz'', ([], sample_store)) =
     (Some (ClientError NoSuchKey), new_object 1 ''zz'',
      ([(''zz'', 0, 0), (''zz'', - 1, 0)], sample_store)) \<and>
   fillChunk (logged scripted) False
       (new_object 1 ''k'', ([], [Inl TransportError, Inr (chunk ''hello, world'' None None 7)])) =
     (None,
      (new_object 1 ''k'')\<lparr>modTime := 7, buf := ''hello, world'', size' := 12,
                            completelyLoaded := True\<rparr>,
      ([(''k'', 0, 0), (''k'', - 1, 0)], []))"
  by (simp add: eval_fetch eval_store)

subsection \<open>The download offset where it is not maintained\<close>


subsection \<open>The requests of the adapters\<close>

lemma s3_input_Range:
  "Range (s3_input bucket key offset cnt) =
     (if offset > - 1 then Some (runes ''bytes='' @ fmt_d offset @ [45] @ fmt_d cnt) else None)"
  by (simp add: s3_input_def)

lemma blob_input_sentinel:
  "offset < 0 \<Longrightarrow> HTTPRange_denotes (RangeOpt (blob_input cont key offset cnt)) = WholeObject"
  by (simp add: blob_input_def HTTPRange_denotes_def)

text \<open>
  Claim C6, at a failing input. For the inclusive range from 5 to 9 the blob adapter
  builds an \<^verbatim>\<open>HTTPRange\<close> with offset 5 and count 9, which asks for the bytes 5 to 13;
  for the range from 0 to 0 it builds the zero value, which asks for the whole blob. The
  S3 adapter sends \<^verbatim>\<open>bytes=5-9\<close> and \<^verbatim>\<open>bytes=0-0\<close>.
\<close>

theorem blob_adapter_takes_end_for_count:
  "RangeOpt (blob_input ''c'' ''k'' 5 9) = \<lparr>Offset = 5, Count = 9\<rparr> \<and>
   HTTPRange_denotes (RangeOpt (blob_input ''c'' ''k'' 5 9)) = FromTo 5 13 \<and>
   HTTPRange_denotes (RangeOpt (blob_input ''c'' ''k'' 0 0)) = WholeObject \<and>
   Range (s3_input ''b'' ''k'' 5 9) = Some (runes ''bytes=5-9'') \<and>
   Range (s3_input ''b'' ''k'' 0 0) = Some (runes ''bytes=0-0'')"
  by (simp add: blob_input_def HTTPRange_denotes_def s3_input_def fmt_d_def dec.simps runes_def)

subsection \<open>A zero-length object\<close>

text \<open>
  The store rejects the first ranged request on an empty object; the handle falls back
  to the whole-object fetch, opens complete with size 0, and the first \<^verbatim>\<open>Read\<close> reports
  end-of-stream.
\<close>

lemma open_empty_object:
  "OpenWithContext (logged store_getObject) 1 ''k'' ([], empty_store) =
     (None, (new_object 1 ''k'')\<lparr>modTime := 7, completelyLoaded := True\<rparr>,
      ([(''k'', 0, 0), (''k'', - 1, 0)], empty_store)) \<and>
   Read store_getObject 16 ((new_object 1 ''k'')\<lparr>modTime := 7, completelyLoaded := True\<rparr>, empty_store) =
     (Inl EOF, (new_object 1 ''k'')\<lparr>modTime := 7, completelyLoaded := True\<rparr>, empty_store)"
  by (simp add: OpenWithContext_def Read_def eval_fetch store_getObject_def empty_store_def)

end
